theory Spec2Isabelle
  imports Main
begin

section \<open>Values and errors\<close>

text \<open>
  The values that the catch block of \<open>executeTransaction\<close> inspects. A thrown value is an
  object (every rejection of the ethers library and every built-in exception is one); its
  \<open>code\<close> is a JSON-RPC number, a library string such as \<open>SERVER_ERROR\<close>, or absent, and
  its \<open>message\<close> is a string or absent. Strings are byte strings.
\<close>

datatype js_value = JUndefined | JNum int | JStr string

record js_error =
  code :: js_value
  message :: "string option"

text \<open>\<open>String.prototype.toLowerCase\<close> on the letters A to Z; other bytes are kept.\<close>

definition lowerChar :: "char \<Rightarrow> char" where
  "lowerChar c =
     (if 65 \<le> (of_char c :: nat) \<and> (of_char c :: nat) \<le> 90
      then char_of ((of_char c :: nat) + 32) else c)"

definition toLowerCase :: "string \<Rightarrow> string" where
  "toLowerCase s = map lowerChar s"

text \<open>\<open>String.prototype.startsWith\<close> and \<open>String.prototype.includes\<close>.\<close>

fun startsWith :: "string \<Rightarrow> string \<Rightarrow> bool" where
  "startsWith s [] = True"
| "startsWith [] (p # ps) = False"
| "startsWith (c # cs) (p # ps) = (c = p \<and> startsWith cs ps)"

fun includes_str :: "string \<Rightarrow> string \<Rightarrow> bool" where
  "includes_str [] sub = (sub = [])"
| "includes_str (c # cs) sub = (startsWith (c # cs) sub \<or> includes_str cs sub)"

section \<open>Error classification in the catch block\<close>

text \<open>
  \<^verbatim>\<open>
  const isRateLimitError = (error.code === -32029)
      || (error.message && error.message.toLowerCase().includes('rate limit exceeded'));
  const isNetworkError = ['SERVER_ERROR', 'NETWORK_ERROR', 'TIMEOUT'].includes(error.code)
      || (error.message && error.message.includes('failed to detect network'));
  \<close>
  An absent or empty message is falsy, so the right operand of each \<open>||\<close> is falsy for it.
\<close>

definition isRateLimitError :: "js_error \<Rightarrow> bool" where
  "isRateLimitError error =
     (code error = JNum (- 32029) \<or>
      (case message error of
         None \<Rightarrow> False
       | Some m \<Rightarrow> m \<noteq> [] \<and> includes_str (toLowerCase m) ''rate limit exceeded''))"

definition isNetworkError :: "js_error \<Rightarrow> bool" where
  "isNetworkError error =
     (code error \<in> set [JStr ''SERVER_ERROR'', JStr ''NETWORK_ERROR'', JStr ''TIMEOUT''] \<or>
      (case message error of
         None \<Rightarrow> False
       | Some m \<Rightarrow> m \<noteq> [] \<and> includes_str m ''failed to detect network''))"

text \<open>
  The branch that the catch block takes:
  \<open>if (isRateLimitError) ... else if (isNetworkError) ... else ...\<close>.
\<close>

datatype handling = RateLimited | NetworkFailure | FatalError

definition classify :: "js_error \<Rightarrow> handling" where
  "classify error =
     (if isRateLimitError error then RateLimited
      else if isNetworkError error then NetworkFailure
      else FatalError)"

section \<open>Configuration and connection state\<close>

definition RPC_URLS :: "string list" where
  "RPC_URLS = [''https://sepolia.base.org'', ''https://base-sepolia.drpc.org'',
     ''https://base-sepolia.therpc.io'']"

definition MAX_RETRIES :: nat where
  "MAX_RETRIES = 5"

text \<open>
  The module's mutable globals: \<open>currentRpcIndex\<close> and the four handles that
  \<open>initializeConnections\<close> assigns. A handle is represented by the position in \<open>RPC_URLS\<close>
  of the endpoint it was built on. \<open>main\<close> runs \<open>initializeConnections\<close> before anything
  else and the process exits when that first call throws, so the handles are never unset
  when the functions below run.
\<close>

record state =
  currentRpcIndex :: nat
  provider :: nat
  wallet :: nat
  mintContract :: nat
  wrapperContract :: nat

text \<open>
  \<open>initializeConnections\<close> builds the provider, the wallet, reads the two ABI files from
  disk (\<open>loadJson\<close>: \<open>fs.readFileSync\<close> and \<open>JSON.parse\<close>, both of which throw) and builds
  the two contracts. The first parameter is what the outside world does to this call: no
  failure, or the statement that throws and the error thrown. The globals assigned before the
  throwing statement keep their new values.
\<close>

datatype init_step =
  NewProvider | NewWallet | LoadMintAbi | LoadWrapperAbi | NewMintContract | NewWrapperContract

fun initializeConnections :: "(init_step \<times> js_error) option \<Rightarrow> state \<Rightarrow> js_error option \<times> state" where
  "initializeConnections None s =
     (None, s\<lparr>provider := currentRpcIndex s, wallet := currentRpcIndex s,
              mintContract := currentRpcIndex s, wrapperContract := currentRpcIndex s\<rparr>)"
| "initializeConnections (Some (NewProvider, e)) s = (Some e, s)"
| "initializeConnections (Some (NewWallet, e)) s =
     (Some e, s\<lparr>provider := currentRpcIndex s\<rparr>)"
| "initializeConnections (Some (LoadMintAbi, e)) s =
     (Some e, s\<lparr>provider := currentRpcIndex s, wallet := currentRpcIndex s\<rparr>)"
| "initializeConnections (Some (LoadWrapperAbi, e)) s =
     (Some e, s\<lparr>provider := currentRpcIndex s, wallet := currentRpcIndex s\<rparr>)"
| "initializeConnections (Some (NewMintContract, e)) s =
     (Some e, s\<lparr>provider := currentRpcIndex s, wallet := currentRpcIndex s\<rparr>)"
| "initializeConnections (Some (NewWrapperContract, e)) s =
     (Some e, s\<lparr>provider := currentRpcIndex s, wallet := currentRpcIndex s,
                mintContract := currentRpcIndex s\<rparr>)"

section \<open>The transaction executor\<close>

text \<open>
  The closure passed as \<open>fn\<close>: one of the four contract calls, with its argument.
\<close>

datatype action = Mint nat | Approve nat | Wrap int | Unwrap int

text \<open>The calls to the outside world, in the order they are made.\<close>

datatype event =
  GetFeeData
  | Send action int
  | Wait
  | Sleep nat
  | Reconnect nat
  | BalanceOf
  | Allowance

text \<open>
  What the outside world answers during one iteration of the retry loop:
  \<open>provider.getFeeData()\<close> rejects or resolves with a \<open>gasPrice\<close> that is a bigint or
  \<open>null\<close>; \<open>randomDelay(1, 100)\<close>; \<open>fn({ gasPrice })\<close> and \<open>tx.wait()\<close> reject or resolve;
  \<open>randomDelay(60000, 120000)\<close> and the fate of \<open>initializeConnections\<close>, for the
  branches that reach them.
\<close>

record attempt_world =
  feeData :: "js_error + int option"
  priority :: int
  sent :: "js_error option"
  mined :: "js_error option"
  backoffTime :: nat
  reconnect :: "(init_step \<times> js_error) option"

text \<open>\<open>null + 1n\<close> throws a TypeError, which has no \<open>code\<close>.\<close>

definition typeError :: js_error where
  "typeError = \<lparr>code = JUndefined,
     message = Some ''Cannot mix BigInt and other types, use explicit conversions''\<rparr>"

text \<open>
  The body of the \<open>try\<close>: the error it throws, if any, and the calls it made.
\<close>

definition tryBlock :: "attempt_world \<Rightarrow> action \<Rightarrow> js_error option \<times> event list" where
  "tryBlock w fn =
     (case feeData w of
        Inl e \<Rightarrow> (Some e, [GetFeeData])
      | Inr None \<Rightarrow> (Some typeError, [GetFeeData])
      | Inr (Some g) \<Rightarrow>
          (let gasPrice = g + priority w in
           case sent w of
             Some e \<Rightarrow> (Some e, [GetFeeData, Send fn gasPrice])
           | None \<Rightarrow>
               (case mined w of
                  Some e \<Rightarrow> (Some e, [GetFeeData, Send fn gasPrice, Wait])
                | None \<Rightarrow> (None, [GetFeeData, Send fn gasPrice, Wait]))))"

text \<open>
  The result of a call: the value returned (\<open>Inr\<close>) or the exception that escapes
  (\<open>Inl\<close>), the globals afterwards, and the calls made.
\<close>

record exec_result =
  ret :: "js_error + bool"
  post :: state
  events :: "event list"

definition prepend :: "event list \<Rightarrow> exec_result \<Rightarrow> exec_result" where
  "prepend evs r = r\<lparr>events := evs @ events r\<rparr>"

text \<open>
  The loop \<open>for (let attempt = 1; attempt <= MAX_RETRIES; attempt++)\<close> from the value
  \<open>attempt\<close> on, and the \<open>return false\<close> after it.
\<close>

function attemptLoop :: "(nat \<Rightarrow> attempt_world) \<Rightarrow> action \<Rightarrow> nat \<Rightarrow> state \<Rightarrow> exec_result" where
  "attemptLoop W fn attempt s =
     (if attempt \<le> MAX_RETRIES then
        (case tryBlock (W attempt) fn of
           (None, evs) \<Rightarrow> \<lparr>ret = Inr True, post = s, events = evs\<rparr>
         | (Some error, evs) \<Rightarrow>
             (case classify error of
                RateLimited \<Rightarrow>
                  if attempt < MAX_RETRIES
                  then prepend (evs @ [Sleep (backoffTime (W attempt))])
                         (attemptLoop W fn (attempt + 1) s)
                  else \<lparr>ret = Inr False, post = s, events = evs\<rparr>
              | NetworkFailure \<Rightarrow>
                  (let s1 = s\<lparr>currentRpcIndex := (currentRpcIndex s + 1) mod length RPC_URLS\<rparr>
                   in case initializeConnections (reconnect (W attempt)) s1 of
                        (Some e, s2) \<Rightarrow>
                          \<lparr>ret = Inl e, post = s2,
                           events = evs @ [Reconnect (currentRpcIndex s1)]\<rparr>
                      | (None, s2) \<Rightarrow>
                          prepend (evs @ [Reconnect (currentRpcIndex s1), Sleep 2000])
                            (attemptLoop W fn (attempt + 1) s2))
              | FatalError \<Rightarrow> \<lparr>ret = Inr False, post = s, events = evs\<rparr>))
      else \<lparr>ret = Inr False, post = s, events = []\<rparr>)"
  by pat_completeness auto
termination
  by (relation "measure (\<lambda>(W, fn, attempt, s). Suc MAX_RETRIES - attempt)") auto

declare attemptLoop.simps [simp del]

definition executeTransaction :: "(nat \<Rightarrow> attempt_world) \<Rightarrow> action \<Rightarrow> state \<Rightarrow> exec_result" where
  "executeTransaction W fn s = attemptLoop W fn 1 s"

text \<open>The number of loop iterations a call ran: each one starts with the fee query.\<close>

definition attempts :: "exec_result \<Rightarrow> nat" where
  "attempts r = count_list (events r) GetFeeData"

text \<open>
  An iteration fails with handling \<open>h\<close> when its \<open>try\<close> throws an error that the catch
  block sends to branch \<open>h\<close>; it confirms when the \<open>try\<close> reaches \<open>return true\<close>.
\<close>

definition failsWith :: "handling \<Rightarrow> attempt_world \<Rightarrow> action \<Rightarrow> bool" where
  "failsWith h w fn = (case fst (tryBlock w fn) of None \<Rightarrow> False | Some e \<Rightarrow> classify e = h)"

definition confirms :: "attempt_world \<Rightarrow> action \<Rightarrow> bool" where
  "confirms w fn = (fst (tryBlock w fn) = None)"

text \<open>How many of the iterations \<open>a\<close>, ..., \<open>a + n - 1\<close> fail with a network error.\<close>

definition networkFailures :: "(nat \<Rightarrow> attempt_world) \<Rightarrow> action \<Rightarrow> nat \<Rightarrow> nat \<Rightarrow> nat" where
  "networkFailures W fn a n =
     length (filter (\<lambda>k. failsWith NetworkFailure (W k) fn) [a..<a + n])"

section \<open>Precondition checks\<close>

text \<open>
  \<open>ethers.parseUnits("100", 18)\<close> and \<open>ethers.parseUnits("1000000", 18)\<close> scale by
  \<open>10 ^ 18\<close>; \<open>ethers.MaxUint256\<close> is the largest 256-bit unsigned integer. Balances and
  allowances are decoded \<open>uint256\<close> values, hence natural numbers.
\<close>

definition MINT_AMOUNT :: nat where
  "MINT_AMOUNT = 100 * 10 ^ 18"

definition SUFFICIENT_ALLOWANCE :: nat where
  "SUFFICIENT_ALLOWANCE = 1000000 * 10 ^ 18"

definition MaxUint256 :: nat where
  "MaxUint256 = 2 ^ 256 - 1"

record check_result =
  ok :: bool
  after :: state
  calls :: "event list"

text \<open>
  The first parameter is the answer to the read (\<open>balanceOf\<close>, \<open>allowance\<close>): it rejects
  or resolves with a value. \<open>return await executeTransaction(...)\<close> sits inside the
  \<open>try\<close>, so the \<open>catch\<close> also receives whatever escapes from the executor.
\<close>

definition checkAndMintIfNeeded ::
    "js_error + nat \<Rightarrow> (nat \<Rightarrow> attempt_world) \<Rightarrow> state \<Rightarrow> check_result" where
  "checkAndMintIfNeeded balanceRead W s =
     (case balanceRead of
        Inl error \<Rightarrow> \<lparr>ok = False, after = s, calls = [BalanceOf]\<rparr>
      | Inr balance \<Rightarrow>
          if balance = 0 then
            (let r = executeTransaction W (Mint MINT_AMOUNT) s in
             case ret r of
               Inr b \<Rightarrow> \<lparr>ok = b, after = post r, calls = BalanceOf # events r\<rparr>
             | Inl error \<Rightarrow> \<lparr>ok = False, after = post r, calls = BalanceOf # events r\<rparr>)
          else \<lparr>ok = True, after = s, calls = [BalanceOf]\<rparr>)"

definition checkAndApproveIfNeeded ::
    "js_error + nat \<Rightarrow> (nat \<Rightarrow> attempt_world) \<Rightarrow> state \<Rightarrow> check_result" where
  "checkAndApproveIfNeeded allowanceRead W s =
     (case allowanceRead of
        Inl error \<Rightarrow> \<lparr>ok = False, after = s, calls = [Allowance]\<rparr>
      | Inr allowance \<Rightarrow>
          if allowance < SUFFICIENT_ALLOWANCE then
            (let r = executeTransaction W (Approve MaxUint256) s in
             case ret r of
               Inr b \<Rightarrow> \<lparr>ok = b, after = post r, calls = Allowance # events r\<rparr>
             | Inl error \<Rightarrow> \<lparr>ok = False, after = post r, calls = Allowance # events r\<rparr>)
          else \<lparr>ok = True, after = s, calls = [Allowance]\<rparr>)"

section \<open>Token identifiers\<close>

definition characters :: string where
  "characters = ''0123456789''"

text \<open>\<open>String.prototype.charAt\<close>: the empty string outside the string.\<close>

definition charAt :: "string \<Rightarrow> nat \<Rightarrow> string" where
  "charAt s i = (if i < length s then [s ! i] else [])"

text \<open>
  Decimal notation of an integer, as \<open>Number.prototype.toString\<close> and
  \<open>BigInt.prototype.toString\<close> print it (a number below \<open>10 ^ 21\<close> in magnitude, which
  every timestamp is, prints without an exponent).
\<close>

definition digitChar :: "nat \<Rightarrow> char" where
  "digitChar d = char_of (48 + d)"

function toDigits :: "nat \<Rightarrow> string" where
  "toDigits n = (if n < 10 then [digitChar n] else toDigits (n div 10) @ [digitChar (n mod 10)])"
  by pat_completeness auto
termination
  by (relation "measure (\<lambda>n. n)") auto

declare toDigits.simps [simp del]

definition toString :: "int \<Rightarrow> string" where
  "toString n = (if n < 0 then CHR ''-'' # toDigits (nat (- n)) else toDigits (nat n))"

text \<open>\<open>s.slice(-k)\<close>: the last \<open>k\<close> characters, or all of \<open>s\<close> when it is shorter.\<close>

definition sliceLast :: "nat \<Rightarrow> string \<Rightarrow> string" where
  "sliceLast k s = drop (length s - k) s"

text \<open>
  The \<open>k\<close> low-order decimal digits of \<open>n\<close>, most significant first: what \<open>slice(-k)\<close>
  cuts from the decimal notation of a number that has at least \<open>k\<close> digits.
\<close>

fun lowDigits :: "nat \<Rightarrow> nat \<Rightarrow> nat list" where
  "lowDigits 0 n = []"
| "lowDigits (Suc k) n = lowDigits k (n div 10) @ [n mod 10]"

text \<open>
  \<open>BigInt(string)\<close> on the strings that \<open>getRandomTokenID\<close> can build, which consist of
  decimal digits and the minus sign: the empty string is \<open>0n\<close>, an optional leading minus
  sign and at least one digit give the number, and anything else throws a SyntaxError
  (\<open>None\<close>).
\<close>

definition digitVal :: "char \<Rightarrow> nat option" where
  "digitVal c =
     (if 48 \<le> (of_char c :: nat) \<and> (of_char c :: nat) \<le> 57
      then Some ((of_char c :: nat) - 48) else None)"

fun parseDigits :: "string \<Rightarrow> nat \<Rightarrow> nat option" where
  "parseDigits [] acc = Some acc"
| "parseDigits (c # cs) acc =
     (case digitVal c of None \<Rightarrow> None | Some d \<Rightarrow> parseDigits cs (10 * acc + d))"

definition BigInt :: "string \<Rightarrow> int option" where
  "BigInt s =
     (case s of
        [] \<Rightarrow> Some 0
      | c # cs \<Rightarrow>
          if c = CHR ''-'' then
            (if cs = [] then None else map_option (\<lambda>n. - int n) (parseDigits cs 0))
          else map_option int (parseDigits s 0))"

text \<open>
  The loop \<open>for (let i = 0; i < length; i++) result += characters.charAt(...)\<close> from the
  value \<open>i\<close> on; \<open>rnd i\<close> is \<open>Math.floor(Math.random() * characters.length)\<close> as drawn in
  iteration \<open>i\<close>.
\<close>

function randomDigits :: "(nat \<Rightarrow> nat) \<Rightarrow> nat \<Rightarrow> nat \<Rightarrow> string \<Rightarrow> string" where
  "randomDigits rnd len i result =
     (if i < len then randomDigits rnd len (i + 1) (result @ charAt characters (rnd i))
      else result)"
  by pat_completeness auto
termination
  by (relation "measure (\<lambda>(rnd, len, i, result). len - i)") auto

declare randomDigits.simps [simp del]

text \<open>\<open>now\<close> is the value of \<open>Date.now()\<close>.\<close>

definition getRandomTokenID :: "nat \<Rightarrow> (nat \<Rightarrow> nat) \<Rightarrow> int \<Rightarrow> int option" where
  "getRandomTokenID len rnd now =
     BigInt (randomDigits rnd len 0 [] @ sliceLast 5 (toString now))"

section \<open>The daily cycle of batch mode\<close>

text \<open>
  \<^verbatim>\<open>
  const cycleDuration = endTime - startTime;
  const oneDayInMs = 24 * 60 * 60 * 1000;
  const sleepTime = Math.max(0, oneDayInMs - cycleDuration);
  \<close>
  The two clock readings are integers far below \<open>2 ^ 53\<close>, so the arithmetic is exact.
\<close>

definition oneDayInMs :: int where
  "oneDayInMs = 24 * 60 * 60 * 1000"

definition sleepTime :: "int \<Rightarrow> int \<Rightarrow> int" where
  "sleepTime startTime endTime =
     (let cycleDuration = endTime - startTime in max 0 (oneDayInMs - cycleDuration))"

text \<open>
  One iteration of the \<open>while (true)\<close> in \<open>main\<close>: the calls of \<open>runDailyCycle\<close>, given
  here with the two clock readings around them, and then \<open>await sleep(sleepTime)\<close>.
\<close>

definition mainIteration :: "int \<Rightarrow> int \<Rightarrow> event list \<Rightarrow> event list" where
  "mainIteration startTime endTime cycle = cycle @ [Sleep (nat (sleepTime startTime endTime))]"

section \<open>Sample errors, worlds and draws\<close>

definition rateLimitError :: js_error where
  "rateLimitError = \<lparr>code = JNum (- 32029), message = Some ''Too Many Requests''\<rparr>"

definition networkError :: js_error where
  "networkError = \<lparr>code = JStr ''TIMEOUT'', message = Some ''request timeout''\<rparr>"

definition revertError :: js_error where
  "revertError = \<lparr>code = JStr ''CALL_EXCEPTION'', message = Some ''execution reverted''\<rparr>"

definition overloadedError :: js_error where
  "overloadedError = \<lparr>code = JStr ''SERVER_ERROR'', message = Some ''Rate Limit Exceeded''\<rparr>"

definition fileError :: js_error where
  "fileError = \<lparr>code = JStr ''ENOENT'', message = Some ''no such file or directory''\<rparr>"

definition confirming :: attempt_world where
  "confirming = \<lparr>feeData = Inr (Some 1000000), priority = 7, sent = None, mined = None,
     backoffTime = 60000, reconnect = None\<rparr>"

definition rejecting :: "js_error \<Rightarrow> attempt_world" where
  "rejecting e = confirming\<lparr>sent := Some e\<rparr>"

definition alwaysRateLimited :: "nat \<Rightarrow> attempt_world" where
  "alwaysRateLimited k = rejecting rateLimitError"

definition twoOutages :: "nat \<Rightarrow> attempt_world" where
  "twoOutages k = (if k < 3 then rejecting networkError else confirming)"

definition allOutages :: "nat \<Rightarrow> attempt_world" where
  "allOutages k = rejecting networkError"

definition reverting :: "nat \<Rightarrow> attempt_world" where
  "reverting k = rejecting revertError"

definition lateSuccess :: "nat \<Rightarrow> attempt_world" where
  "lateSuccess k =
     (if k = 1 then rejecting rateLimitError
      else if k = 2 then rejecting networkError
      else confirming)"

definition abiFileLost :: "nat \<Rightarrow> attempt_world" where
  "abiFileLost k = (rejecting networkError)\<lparr>reconnect := Some (LoadMintAbi, fileError)\<rparr>"

definition startState :: state where
  "startState = \<lparr>currentRpcIndex = 0, provider = 0, wallet = 0, mintContract = 0,
     wrapperContract = 0\<rparr>"

definition lastEndpoint :: state where
  "lastEndpoint = \<lparr>currentRpcIndex = 2, provider = 2, wallet = 2, mintContract = 2,
     wrapperContract = 2\<rparr>"

definition leadingZero :: "nat \<Rightarrow> nat" where
  "leadingZero i = (if i = 0 then 0 else 7)"

definition allSevens :: "nat \<Rightarrow> nat" where
  "allSevens i = 7"


section \<open>Facts about one iteration\<close>

lemma tryBlock_attempts [simp]: "count_list (snd (tryBlock w fn)) GetFeeData = 1"
  by (simp add: tryBlock_def Let_def split: sum.splits option.splits)

lemma tryBlock_sends: "Send x g \<in> set (snd (tryBlock w fn)) \<Longrightarrow> x = fn"
  by (auto simp: tryBlock_def Let_def split: sum.splits option.splits)

lemma attempts_prepend: "attempts (prepend evs r) = count_list evs GetFeeData + attempts r"
  by (simp add: attempts_def prepend_def)

lemma ret_prepend [simp]: "ret (prepend evs r) = ret r"
  by (simp add: prepend_def)

lemma post_prepend [simp]: "post (prepend evs r) = post r"
  by (simp add: prepend_def)

lemma events_prepend [simp]: "events (prepend evs r) = evs @ events r"
  by (simp add: prepend_def)

lemma initializeConnections_index [simp]:
  "currentRpcIndex (snd (initializeConnections f s)) = currentRpcIndex s"
  by (induction f s rule: initializeConnections.induct) simp_all

lemma failsWith_iff:
  "failsWith h w fn \<longleftrightarrow> (\<exists>e. fst (tryBlock w fn) = Some e \<and> classify e = h)"
  by (simp add: failsWith_def split: option.splits)

lemma confirms_not_failsWith: "confirms w fn \<Longrightarrow> \<not> failsWith h w fn"
  by (simp add: confirms_def failsWith_def)

lemma failsWith_unique: "failsWith h w fn \<Longrightarrow> failsWith h' w fn \<Longrightarrow> h = h'"
  by (auto simp: failsWith_iff)

section \<open>One step of the retry loop\<close>

lemma loop_exhausted:
  "MAX_RETRIES < attempt \<Longrightarrow>
   attemptLoop W fn attempt s = \<lparr>ret = Inr False, post = s, events = []\<rparr>"
  by (simp add: attemptLoop.simps)

lemma loop_confirmed:
  assumes "attempt \<le> MAX_RETRIES" and "confirms (W attempt) fn"
  shows "attemptLoop W fn attempt s =
           \<lparr>ret = Inr True, post = s, events = snd (tryBlock (W attempt) fn)\<rparr>"
  using assms
  by (cases "tryBlock (W attempt) fn")
     (simp add: attemptLoop.simps [of W fn attempt s] confirms_def)

lemma loop_rate_retry:
  assumes "attempt < MAX_RETRIES" and "failsWith RateLimited (W attempt) fn"
  shows "attemptLoop W fn attempt s =
           prepend (snd (tryBlock (W attempt) fn) @ [Sleep (backoffTime (W attempt))])
             (attemptLoop W fn (Suc attempt) s)"
  using assms
  by (cases "tryBlock (W attempt) fn")
     (auto simp: attemptLoop.simps [of W fn attempt s] failsWith_iff)

lemma loop_rate_abort:
  assumes "failsWith RateLimited (W MAX_RETRIES) fn"
  shows "attemptLoop W fn MAX_RETRIES s =
           \<lparr>ret = Inr False, post = s, events = snd (tryBlock (W MAX_RETRIES) fn)\<rparr>"
  using assms
  by (cases "tryBlock (W MAX_RETRIES) fn")
     (auto simp: attemptLoop.simps [of W fn MAX_RETRIES s] failsWith_iff)

lemma loop_fatal:
  assumes "attempt \<le> MAX_RETRIES" and "failsWith FatalError (W attempt) fn"
  shows "attemptLoop W fn attempt s =
           \<lparr>ret = Inr False, post = s, events = snd (tryBlock (W attempt) fn)\<rparr>"
  using assms
  by (cases "tryBlock (W attempt) fn")
     (auto simp: attemptLoop.simps [of W fn attempt s] failsWith_iff)

lemma loop_network_retry:
  assumes "attempt \<le> MAX_RETRIES" and "failsWith NetworkFailure (W attempt) fn"
    and "reconnect (W attempt) = None"
  shows "attemptLoop W fn attempt s =
           prepend (snd (tryBlock (W attempt) fn) @
                    [Reconnect ((currentRpcIndex s + 1) mod length RPC_URLS), Sleep 2000])
             (attemptLoop W fn (Suc attempt)
                (snd (initializeConnections None
                   (s\<lparr>currentRpcIndex := (currentRpcIndex s + 1) mod length RPC_URLS\<rparr>))))"
  using assms
  by (cases "tryBlock (W attempt) fn")
     (auto simp: attemptLoop.simps [of W fn attempt s] failsWith_iff Let_def)

lemma loop_network_throw:
  assumes "attempt \<le> MAX_RETRIES" and "failsWith NetworkFailure (W attempt) fn"
    and "reconnect (W attempt) = Some (step, e')"
  shows "attemptLoop W fn attempt s =
           \<lparr>ret = Inl e',
            post = snd (initializeConnections (Some (step, e'))
                     (s\<lparr>currentRpcIndex := (currentRpcIndex s + 1) mod length RPC_URLS\<rparr>)),
            events = snd (tryBlock (W attempt) fn) @
                     [Reconnect ((currentRpcIndex s + 1) mod length RPC_URLS)]\<rparr>"
  using assms
  by (cases "tryBlock (W attempt) fn"; cases step)
     (auto simp: attemptLoop.simps [of W fn attempt s] failsWith_iff Let_def)

text \<open>Every iteration confirms or fails with exactly one handling.\<close>

lemma attempt_cases:
  obtains (Confirmed) "confirms w fn"
  | (Rate) "failsWith RateLimited w fn"
  | (Network) "failsWith NetworkFailure w fn"
  | (Fatal) "failsWith FatalError w fn"
proof (cases "fst (tryBlock w fn)")
  case None
  then show ?thesis using Confirmed by (simp add: confirms_def)
next
  case (Some e)
  then show ?thesis
    using Rate Network Fatal by (cases "classify e") (auto simp: failsWith_iff)
qed

section \<open>Induction along the retry loop\<close>

lemma attemptLoop_induct [consumes 0, case_names Exhausted Confirmed RateRetry RateAbort NetworkRetry NetworkThrow Fatal]:
  assumes exhausted: "\<And>a s. MAX_RETRIES < a \<Longrightarrow> P a s \<lparr>ret = Inr False, post = s, events = []\<rparr>"
    and confirmed: "\<And>a s. a \<le> MAX_RETRIES \<Longrightarrow> confirms (W a) fn \<Longrightarrow>
          P a s \<lparr>ret = Inr True, post = s, events = snd (tryBlock (W a) fn)\<rparr>"
    and rate_retry: "\<And>a s. a < MAX_RETRIES \<Longrightarrow> failsWith RateLimited (W a) fn \<Longrightarrow>
          P (Suc a) s (attemptLoop W fn (Suc a) s) \<Longrightarrow>
          P a s (prepend (snd (tryBlock (W a) fn) @ [Sleep (backoffTime (W a))])
                   (attemptLoop W fn (Suc a) s))"
    and rate_abort: "\<And>s. failsWith RateLimited (W MAX_RETRIES) fn \<Longrightarrow>
          P MAX_RETRIES s \<lparr>ret = Inr False, post = s, events = snd (tryBlock (W MAX_RETRIES) fn)\<rparr>"
    and network_retry: "\<And>a s s'. a \<le> MAX_RETRIES \<Longrightarrow> failsWith NetworkFailure (W a) fn \<Longrightarrow>
          reconnect (W a) = None \<Longrightarrow>
          s' = snd (initializeConnections None
                 (s\<lparr>currentRpcIndex := (currentRpcIndex s + 1) mod length RPC_URLS\<rparr>)) \<Longrightarrow>
          P (Suc a) s' (attemptLoop W fn (Suc a) s') \<Longrightarrow>
          P a s (prepend (snd (tryBlock (W a) fn) @
                   [Reconnect ((currentRpcIndex s + 1) mod length RPC_URLS), Sleep 2000])
                   (attemptLoop W fn (Suc a) s'))"
    and network_throw: "\<And>a s step e. a \<le> MAX_RETRIES \<Longrightarrow> failsWith NetworkFailure (W a) fn \<Longrightarrow>
          reconnect (W a) = Some (step, e) \<Longrightarrow>
          P a s \<lparr>ret = Inl e,
                 post = snd (initializeConnections (Some (step, e))
                     (s\<lparr>currentRpcIndex := (currentRpcIndex s + 1) mod length RPC_URLS\<rparr>)),
                 events = snd (tryBlock (W a) fn) @
                     [Reconnect ((currentRpcIndex s + 1) mod length RPC_URLS)]\<rparr>"
    and fatal: "\<And>a s. a \<le> MAX_RETRIES \<Longrightarrow> failsWith FatalError (W a) fn \<Longrightarrow>
          P a s \<lparr>ret = Inr False, post = s, events = snd (tryBlock (W a) fn)\<rparr>"
  shows "P a s (attemptLoop W fn a s)"
proof (induction n \<equiv> "Suc MAX_RETRIES - a" arbitrary: a s)
  case 0
  then have "MAX_RETRIES < a" by simp
  then show ?case by (simp add: loop_exhausted exhausted)
next
  case (Suc n)
  then have le: "a \<le> MAX_RETRIES" and n: "n = Suc MAX_RETRIES - Suc a" by simp_all
  show ?case
  proof (cases "W a" fn rule: attempt_cases)
    case Confirmed
    then show ?thesis using le by (simp add: loop_confirmed confirmed)
  next
    case Rate
    show ?thesis
    proof (cases "a = MAX_RETRIES")
      case True
      then show ?thesis using Rate by (simp add: loop_rate_abort rate_abort)
    next
      case False
      then have lt: "a < MAX_RETRIES" using le by simp
      show ?thesis
        using rate_retry [OF lt Rate Suc.hyps(1) [OF n]] by (simp add: loop_rate_retry [where W = W and attempt = a, OF lt Rate])
    qed
  next
    case Network
    show ?thesis
    proof (cases "reconnect (W a)")
      case None
      show ?thesis
        using network_retry [OF le Network None refl Suc.hyps(1) [OF n]]
        by (simp add: loop_network_retry [where W = W and attempt = a, OF le Network None])
    next
      case (Some p)
      obtain step e where p: "p = (step, e)" by (cases p)
      show ?thesis
        using network_throw [OF le Network Some [unfolded p]]
        by (simp add: loop_network_throw [where W = W and attempt = a, OF le Network Some [unfolded p]])
    qed
  next
    case Fatal
    then show ?thesis using le by (simp add: loop_fatal fatal)
  qed
qed


section \<open>Runs that end in success\<close>

lemma success_from:
  assumes "a + n = k" and "k \<le> MAX_RETRIES"
    and "\<forall>j\<in>{a..<k}. failsWith RateLimited (W j) fn \<or>
           (failsWith NetworkFailure (W j) fn \<and> reconnect (W j) = None)"
    and "confirms (W k) fn"
  shows "ret (attemptLoop W fn a s) = Inr True \<and> attempts (attemptLoop W fn a s) = Suc n \<and>
         currentRpcIndex (post (attemptLoop W fn a s)) =
           ((\<lambda>i. (i + 1) mod length RPC_URLS) ^^ networkFailures W fn a n) (currentRpcIndex s)"
  using assms
proof (induction n arbitrary: a s)
  case 0
  then have "a = k" by simp
  with 0 show ?case
    by (simp add: loop_confirmed attempts_def networkFailures_def)
next
  case (Suc n)
  have lt: "a < MAX_RETRIES" and le: "a \<le> MAX_RETRIES" using Suc.prems by simp_all
  have rest: "Suc a + n = k" using Suc.prems by simp
  have later: "\<forall>j\<in>{Suc a..<k}. failsWith RateLimited (W j) fn \<or>
      (failsWith NetworkFailure (W j) fn \<and> reconnect (W j) = None)"
    using Suc.prems by simp
  have upt_split: "[a..<a + Suc n] = a # [Suc a..<Suc a + n]"
    by (simp add: upt_rec)
  have here: "failsWith RateLimited (W a) fn \<or>
      (failsWith NetworkFailure (W a) fn \<and> reconnect (W a) = None)"
    using Suc.prems by simp
  then show ?case
  proof
    assume rate: "failsWith RateLimited (W a) fn"
    then have no: "\<not> failsWith NetworkFailure (W a) fn"
      using failsWith_unique by blast
    have IH: "ret (attemptLoop W fn (Suc a) s) = Inr True \<and>
        attempts (attemptLoop W fn (Suc a) s) = Suc n \<and>
        currentRpcIndex (post (attemptLoop W fn (Suc a) s)) =
          ((\<lambda>i. (i + 1) mod length RPC_URLS) ^^ networkFailures W fn (Suc a) n) (currentRpcIndex s)"
      using rest Suc.prems(2) later Suc.prems(4) by (rule Suc.IH)
    have count: "networkFailures W fn a (Suc n) = networkFailures W fn (Suc a) n"
      using no unfolding networkFailures_def upt_split by simp
    show ?thesis
      unfolding count using IH
      by (simp add: loop_rate_retry [where W = W and attempt = a, OF lt rate] attempts_prepend)
  next
    assume net: "failsWith NetworkFailure (W a) fn \<and> reconnect (W a) = None"
    define s' where "s' = snd (initializeConnections None
        (s\<lparr>currentRpcIndex := (currentRpcIndex s + 1) mod length RPC_URLS\<rparr>))"
    have IH: "ret (attemptLoop W fn (Suc a) s') = Inr True \<and>
        attempts (attemptLoop W fn (Suc a) s') = Suc n \<and>
        currentRpcIndex (post (attemptLoop W fn (Suc a) s')) =
          ((\<lambda>i. (i + 1) mod length RPC_URLS) ^^ networkFailures W fn (Suc a) n) (currentRpcIndex s')"
      using rest Suc.prems(2) later Suc.prems(4) by (rule Suc.IH)
    have idx: "currentRpcIndex s' = (currentRpcIndex s + 1) mod length RPC_URLS"
      by (simp add: s'_def)
    have step: "attemptLoop W fn a s =
        prepend (snd (tryBlock (W a) fn) @
                 [Reconnect ((currentRpcIndex s + 1) mod length RPC_URLS), Sleep 2000])
          (attemptLoop W fn (Suc a) s')"
      using net le unfolding s'_def
      by (simp add: loop_network_retry [where W = W and attempt = a])
    have count: "networkFailures W fn a (Suc n) = Suc (networkFailures W fn (Suc a) n)"
      using net unfolding networkFailures_def upt_split by simp
    have shift: "\<And>f m (x::nat). (f ^^ Suc m) x = (f ^^ m) (f x)"
      by (simp only: funpow_Suc_right o_apply)
    show ?thesis
      unfolding step count shift using IH idx
      by (simp add: attempts_prepend)
  qed
qed


section \<open>Properties of every run\<close>

lemma networkFailures_0 [simp]: "networkFailures W fn a 0 = 0"
  by (simp add: networkFailures_def)

lemma networkFailures_Suc:
  "networkFailures W fn a (Suc n) =
     (if failsWith NetworkFailure (W a) fn then 1 else 0) + networkFailures W fn (Suc a) n"
proof -
  have "[a..<a + Suc n] = a # [Suc a..<Suc a + n]"
    by (simp add: upt_rec)
  then show ?thesis
    unfolding networkFailures_def by simp
qed

lemma funpow_shift: "(f ^^ Suc m) (x::nat) = (f ^^ m) (f x)"
  by (simp only: funpow_Suc_right o_apply)

lemma index_from:
  "currentRpcIndex (post (attemptLoop W fn a s)) =
     ((\<lambda>i. (i + 1) mod length RPC_URLS) ^^
        networkFailures W fn a (attempts (attemptLoop W fn a s))) (currentRpcIndex s)"
proof (rule attemptLoop_induct [where P = "\<lambda>a s r. currentRpcIndex (post r) =
     ((\<lambda>i. (i + 1) mod length RPC_URLS) ^^ networkFailures W fn a (attempts r))
       (currentRpcIndex s)"])
  fix a s
  show "currentRpcIndex (post \<lparr>ret = Inr False, post = s, events = []\<rparr>) =
     ((\<lambda>i. (i + 1) mod length RPC_URLS) ^^
        networkFailures W fn a (attempts \<lparr>ret = Inr False, post = s, events = []\<rparr>))
       (currentRpcIndex s)"
    by (simp add: attempts_def)
next
  fix a s
  assume "confirms (W a) fn"
  then have "\<not> failsWith NetworkFailure (W a) fn"
    by (rule confirms_not_failsWith)
  then show "currentRpcIndex (post \<lparr>ret = Inr True, post = s, events = snd (tryBlock (W a) fn)\<rparr>) =
     ((\<lambda>i. (i + 1) mod length RPC_URLS) ^^
        networkFailures W fn a (attempts \<lparr>ret = Inr True, post = s, events = snd (tryBlock (W a) fn)\<rparr>))
       (currentRpcIndex s)"
    by (simp add: attempts_def networkFailures_Suc)
next
  fix a s
  assume rate: "failsWith RateLimited (W a) fn"
    and IH: "currentRpcIndex (post (attemptLoop W fn (Suc a) s)) =
       ((\<lambda>i. (i + 1) mod length RPC_URLS) ^^
          networkFailures W fn (Suc a) (attempts (attemptLoop W fn (Suc a) s))) (currentRpcIndex s)"
  have "\<not> failsWith NetworkFailure (W a) fn"
    using rate failsWith_unique by blast
  then show "currentRpcIndex (post (prepend (snd (tryBlock (W a) fn) @ [Sleep (backoffTime (W a))])
          (attemptLoop W fn (Suc a) s))) =
     ((\<lambda>i. (i + 1) mod length RPC_URLS) ^^
        networkFailures W fn a (attempts (prepend (snd (tryBlock (W a) fn) @ [Sleep (backoffTime (W a))])
          (attemptLoop W fn (Suc a) s)))) (currentRpcIndex s)"
    using IH by (simp add: attempts_prepend networkFailures_Suc)
next
  fix s
  assume rate: "failsWith RateLimited (W MAX_RETRIES) fn"
  have "\<not> failsWith NetworkFailure (W MAX_RETRIES) fn"
    using rate failsWith_unique by blast
  then show "currentRpcIndex (post \<lparr>ret = Inr False, post = s, events = snd (tryBlock (W MAX_RETRIES) fn)\<rparr>) =
     ((\<lambda>i. (i + 1) mod length RPC_URLS) ^^
        networkFailures W fn MAX_RETRIES
          (attempts \<lparr>ret = Inr False, post = s, events = snd (tryBlock (W MAX_RETRIES) fn)\<rparr>))
       (currentRpcIndex s)"
    by (simp add: attempts_def networkFailures_Suc)
next
  fix a s s'
  assume net: "failsWith NetworkFailure (W a) fn"
    and s': "s' = snd (initializeConnections None
         (s\<lparr>currentRpcIndex := (currentRpcIndex s + 1) mod length RPC_URLS\<rparr>))"
    and IH: "currentRpcIndex (post (attemptLoop W fn (Suc a) s')) =
       ((\<lambda>i. (i + 1) mod length RPC_URLS) ^^
          networkFailures W fn (Suc a) (attempts (attemptLoop W fn (Suc a) s'))) (currentRpcIndex s')"
  have idx: "currentRpcIndex s' = (currentRpcIndex s + 1) mod length RPC_URLS"
    by (simp add: s')
  have count: "networkFailures W fn a
      (attempts (prepend (snd (tryBlock (W a) fn) @
         [Reconnect ((currentRpcIndex s + 1) mod length RPC_URLS), Sleep 2000])
         (attemptLoop W fn (Suc a) s'))) =
      Suc (networkFailures W fn (Suc a) (attempts (attemptLoop W fn (Suc a) s')))"
    using net by (simp add: attempts_prepend networkFailures_Suc)
  show "currentRpcIndex (post (prepend (snd (tryBlock (W a) fn) @
         [Reconnect ((currentRpcIndex s + 1) mod length RPC_URLS), Sleep 2000])
         (attemptLoop W fn (Suc a) s'))) =
     ((\<lambda>i. (i + 1) mod length RPC_URLS) ^^
        networkFailures W fn a (attempts (prepend (snd (tryBlock (W a) fn) @
         [Reconnect ((currentRpcIndex s + 1) mod length RPC_URLS), Sleep 2000])
         (attemptLoop W fn (Suc a) s')))) (currentRpcIndex s)"
    unfolding count funpow_shift using IH idx by simp
next
  fix a s step e
  assume net: "failsWith NetworkFailure (W a) fn"
  let ?r = "\<lparr>ret = Inl e,
      post = snd (initializeConnections (Some (step, e))
          (s\<lparr>currentRpcIndex := (currentRpcIndex s + 1) mod length RPC_URLS\<rparr>)),
      events = snd (tryBlock (W a) fn) @
          [Reconnect ((currentRpcIndex s + 1) mod length RPC_URLS)]\<rparr>"
  have "networkFailures W fn a (attempts ?r) = Suc 0"
    using net by (simp add: attempts_def networkFailures_Suc)
  then show "currentRpcIndex (post ?r) =
     ((\<lambda>i. (i + 1) mod length RPC_URLS) ^^ networkFailures W fn a (attempts ?r)) (currentRpcIndex s)"
    by simp
next
  fix a s
  assume fatal: "failsWith FatalError (W a) fn"
  have "\<not> failsWith NetworkFailure (W a) fn"
    using fatal failsWith_unique by blast
  then show "currentRpcIndex (post \<lparr>ret = Inr False, post = s, events = snd (tryBlock (W a) fn)\<rparr>) =
     ((\<lambda>i. (i + 1) mod length RPC_URLS) ^^
        networkFailures W fn a (attempts \<lparr>ret = Inr False, post = s, events = snd (tryBlock (W a) fn)\<rparr>))
       (currentRpcIndex s)"
    by (simp add: attempts_def networkFailures_Suc)
qed

lemma funpow_next_index:
  assumes "i < L"
  shows "((\<lambda>i. (i + 1) mod L) ^^ m) i = (i + m) mod L"
proof (induction m)
  case 0
  show ?case using assms by simp
next
  case (Suc m)
  then show ?case by (simp add: mod_Suc_eq)
qed


lemma escape_from:
  "(\<exists>b. ret (attemptLoop W fn a s) = Inr b) \<or>
   (\<exists>k step e. a \<le> k \<and> k \<le> MAX_RETRIES \<and> failsWith NetworkFailure (W k) fn \<and>
      reconnect (W k) = Some (step, e) \<and> ret (attemptLoop W fn a s) = Inl e)"
proof (induction rule: attemptLoop_induct [where P = "\<lambda>a s r. (\<exists>b. ret r = Inr b) \<or>
   (\<exists>k step e. a \<le> k \<and> k \<le> MAX_RETRIES \<and> failsWith NetworkFailure (W k) fn \<and>
      reconnect (W k) = Some (step, e) \<and> ret r = Inl e)"])
  case (RateRetry a s)
  then show ?case using Suc_leD by auto
next
  case (NetworkRetry a s s')
  then show ?case using Suc_leD by auto
next
  case (NetworkThrow a s step e)
  then show ?case by auto
qed auto

lemma sends_from:
  "Send x g \<in> set (events (attemptLoop W fn a s)) \<longrightarrow> x = fn"
proof (induction rule: attemptLoop_induct [where P = "\<lambda>a s r. Send x g \<in> set (events r) \<longrightarrow> x = fn"])
qed (auto dest: tryBlock_sends)

section \<open>Sample inputs\<close>

lemma classify_rateLimitError: "classify rateLimitError = RateLimited"
  by (simp add: classify_def isRateLimitError_def rateLimitError_def)

lemma classify_networkError: "classify networkError = NetworkFailure"
  by code_simp

lemma classify_revertError: "classify revertError = FatalError"
  by code_simp

lemma tryBlock_confirming:
  "tryBlock confirming fn = (None, [GetFeeData, Send fn 1000007, Wait])"
  by (simp add: tryBlock_def confirming_def)

lemma tryBlock_rejecting:
  "tryBlock (rejecting e) fn = (Some e, [GetFeeData, Send fn 1000007])"
  by (simp add: tryBlock_def confirming_def rejecting_def)

lemma confirms_confirming: "confirms confirming fn"
  by (simp add: confirms_def tryBlock_confirming)

lemma failsWith_rejecting: "failsWith h (rejecting e) fn \<longleftrightarrow> classify e = h"
  by (simp add: failsWith_def tryBlock_rejecting)

lemma reconnect_rejecting: "reconnect (rejecting e) = None"
  by (simp add: rejecting_def confirming_def)


section \<open>The claims about the executor\<close>

lemma rate_limited_from:
  assumes "a + n = MAX_RETRIES"
    and "\<forall>k\<in>{a..MAX_RETRIES}. failsWith RateLimited (W k) fn"
  shows "ret (attemptLoop W fn a s) = Inr False \<and> attempts (attemptLoop W fn a s) = Suc n \<and>
         post (attemptLoop W fn a s) = s"
  using assms
proof (induction n arbitrary: a)
  case 0
  then have "a = MAX_RETRIES" and "failsWith RateLimited (W MAX_RETRIES) fn"
    by simp_all
  then show ?case
    by (simp add: loop_rate_abort attempts_def)
next
  case (Suc n)
  have lt: "a < MAX_RETRIES" and here: "failsWith RateLimited (W a) fn"
    using Suc.prems by simp_all
  have "Suc a + n = MAX_RETRIES" using Suc.prems by simp
  moreover have "\<forall>k\<in>{Suc a..MAX_RETRIES}. failsWith RateLimited (W k) fn"
    using Suc.prems by simp
  ultimately have IH: "ret (attemptLoop W fn (Suc a) s) = Inr False \<and>
      attempts (attemptLoop W fn (Suc a) s) = Suc n \<and> post (attemptLoop W fn (Suc a) s) = s"
    by (rule Suc.IH)
  show ?case
    using IH by (simp add: loop_rate_retry [where W = W and attempt = a, OF lt here] attempts_prepend)
qed

text \<open>
  Claim C1. The attempt budget \<open>MAX_RETRIES\<close> is 5. When each of the five iterations throws
  an error that the catch block handles as a rate limit (whichever call of the \<open>try\<close> threw
  it), \<open>executeTransaction\<close> runs exactly five iterations, returns \<open>false\<close>, and leaves the
  globals as they were.
\<close>

theorem rate_limited_exhausts_budget:
  assumes "\<forall>k\<in>{1..5}. failsWith RateLimited (W k) fn"
  shows "MAX_RETRIES = 5 \<and>
         ret (executeTransaction W fn s) = Inr False \<and>
         attempts (executeTransaction W fn s) = 5 \<and>
         post (executeTransaction W fn s) = s"
  using rate_limited_from [of 1 4 W fn s] assms
  by (simp add: executeTransaction_def MAX_RETRIES_def)

text \<open>The world in which every submission is rejected with code -32029.\<close>

theorem rate_limited_exhausts_budget_witness:
  "ret (executeTransaction alwaysRateLimited (Wrap 5) startState) = Inr False \<and>
   attempts (executeTransaction alwaysRateLimited (Wrap 5) startState) = 5"
  using rate_limited_exhausts_budget [of alwaysRateLimited "Wrap 5" startState]
  by (simp add: alwaysRateLimited_def failsWith_rejecting classify_rateLimitError)

text \<open>
  Claim C2. There are three endpoints. After any call, whether it returns or throws,
  \<open>currentRpcIndex\<close> is the old index advanced by \<open>(index + 1) mod length\<close> once for each
  iteration that ran and failed with a network error; from a valid index this is
  \<open>(index + n) mod length\<close>, again a valid index. When the first two iterations fail with a
  network error, both rebuilds of the connection return, and the third iteration confirms,
  the call returns \<open>true\<close> after three iterations with the index advanced by 2 modulo the
  length.
\<close>

theorem network_failure_advances_index:
  "length RPC_URLS = 3 \<and>
   currentRpcIndex (post (executeTransaction W fn s)) =
     ((\<lambda>i. (i + 1) mod length RPC_URLS) ^^
        networkFailures W fn 1 (attempts (executeTransaction W fn s))) (currentRpcIndex s) \<and>
   (currentRpcIndex s < length RPC_URLS \<longrightarrow>
      currentRpcIndex (post (executeTransaction W fn s)) =
        (currentRpcIndex s + networkFailures W fn 1 (attempts (executeTransaction W fn s)))
          mod length RPC_URLS \<and>
      currentRpcIndex (post (executeTransaction W fn s)) < length RPC_URLS) \<and>
   (failsWith NetworkFailure (W 1) fn \<and> reconnect (W 1) = None \<and>
    failsWith NetworkFailure (W 2) fn \<and> reconnect (W 2) = None \<and> confirms (W 3) fn \<longrightarrow>
      ret (executeTransaction W fn s) = Inr True \<and>
      attempts (executeTransaction W fn s) = 3 \<and>
      currentRpcIndex (post (executeTransaction W fn s)) =
        (currentRpcIndex s + 2) mod length RPC_URLS)"
proof -
  let ?r = "executeTransaction W fn s"
  let ?m = "networkFailures W fn 1 (attempts ?r)"
  have len: "length RPC_URLS = 3"
    by (simp add: RPC_URLS_def)
  have general: "currentRpcIndex (post ?r) =
      ((\<lambda>i. (i + 1) mod length RPC_URLS) ^^ ?m) (currentRpcIndex s)"
    unfolding executeTransaction_def by (rule index_from)
  have valid: "currentRpcIndex (post ?r) = (currentRpcIndex s + ?m) mod length RPC_URLS \<and>
      currentRpcIndex (post ?r) < length RPC_URLS"
    if "currentRpcIndex s < length RPC_URLS"
    using that general
      funpow_next_index [of "currentRpcIndex s" "length RPC_URLS"
        "networkFailures W fn 1 (attempts (executeTransaction W fn s))"]
    by (simp add: len)
  have scenario: "ret ?r = Inr True \<and> attempts ?r = 3 \<and>
      currentRpcIndex (post ?r) = (currentRpcIndex s + 2) mod length RPC_URLS"
    if h: "failsWith NetworkFailure (W 1) fn \<and> reconnect (W 1) = None \<and>
      failsWith NetworkFailure (W 2) fn \<and> reconnect (W 2) = None \<and> confirms (W 3) fn"
  proof -
    have early: "\<forall>j\<in>{1..<3}. failsWith RateLimited (W j) fn \<or>
        (failsWith NetworkFailure (W j) fn \<and> reconnect (W j) = None)"
    proof
      fix j :: nat
      assume "j \<in> {1..<3}"
      then have "j = 1 \<or> j = 2" by auto
      then show "failsWith RateLimited (W j) fn \<or>
          (failsWith NetworkFailure (W j) fn \<and> reconnect (W j) = None)"
        using h by auto
    qed
    have run: "ret ?r = Inr True \<and> attempts ?r = 3 \<and>
        currentRpcIndex (post ?r) =
          ((\<lambda>i. (i + 1) mod length RPC_URLS) ^^ networkFailures W fn 1 2) (currentRpcIndex s)"
      using success_from [of 1 2 3 W fn s] early h
      by (simp add: executeTransaction_def MAX_RETRIES_def)
    have "networkFailures W fn 1 2 = 2"
      using h by (simp add: networkFailures_Suc numeral_2_eq_2)
    moreover have "((\<lambda>i. (i + 1) mod length RPC_URLS) ^^ 2) (currentRpcIndex s) =
        (currentRpcIndex s + 2) mod length RPC_URLS"
      by (simp add: numeral_2_eq_2 mod_Suc_eq)
    ultimately show ?thesis
      using run by simp
  qed
  show ?thesis
    using len general valid scenario by blast
qed

text \<open>Two timeouts from the last endpoint: the index wraps from 2 to 1.\<close>

theorem network_failure_advances_index_witness:
  "ret (executeTransaction twoOutages (Wrap 5) lastEndpoint) = Inr True \<and>
   currentRpcIndex (post (executeTransaction twoOutages (Wrap 5) lastEndpoint)) = 1"
proof -
  have outages: "failsWith NetworkFailure (twoOutages 1) (Wrap 5) \<and>
      reconnect (twoOutages 1) = None \<and>
      failsWith NetworkFailure (twoOutages 2) (Wrap 5) \<and>
      reconnect (twoOutages 2) = None \<and> confirms (twoOutages 3) (Wrap 5)"
    by (simp add: twoOutages_def failsWith_rejecting classify_networkError reconnect_rejecting
        confirms_confirming)
  have "ret (executeTransaction twoOutages (Wrap 5) lastEndpoint) = Inr True \<and>
      attempts (executeTransaction twoOutages (Wrap 5) lastEndpoint) = 3 \<and>
      currentRpcIndex (post (executeTransaction twoOutages (Wrap 5) lastEndpoint)) =
        (currentRpcIndex lastEndpoint + 2) mod length RPC_URLS"
    using network_failure_advances_index [of twoOutages "Wrap 5" lastEndpoint] outages
    by blast
  then show ?thesis
    by (simp add: lastEndpoint_def RPC_URLS_def)
qed

text \<open>
  Claim C3. When the first iteration throws an error that is neither a rate limit nor a
  network error, \<open>executeTransaction\<close> returns \<open>false\<close> after that single iteration: it makes
  no call beyond those of the first \<open>try\<close>, and the globals, \<open>currentRpcIndex\<close> among them,
  are unchanged.
\<close>

theorem fatal_error_aborts_at_once:
  assumes "failsWith FatalError (W 1) fn"
  shows "ret (executeTransaction W fn s) = Inr False \<and>
         attempts (executeTransaction W fn s) = 1 \<and>
         post (executeTransaction W fn s) = s \<and>
         events (executeTransaction W fn s) = snd (tryBlock (W 1) fn)"
proof -
  have "attemptLoop W fn 1 s =
      \<lparr>ret = Inr False, post = s, events = snd (tryBlock (W 1) fn)\<rparr>"
    using assms by (intro loop_fatal) (simp_all add: MAX_RETRIES_def)
  then show ?thesis
    by (simp add: executeTransaction_def attempts_def)
qed

text \<open>A reverted call.\<close>

theorem fatal_error_aborts_at_once_witness:
  "ret (executeTransaction reverting (Unwrap 9) lastEndpoint) = Inr False \<and>
   attempts (executeTransaction reverting (Unwrap 9) lastEndpoint) = 1 \<and>
   post (executeTransaction reverting (Unwrap 9) lastEndpoint) = lastEndpoint"
  using fatal_error_aborts_at_once [of reverting "Unwrap 9" lastEndpoint]
  by (simp add: reverting_def failsWith_rejecting classify_revertError)

text \<open>
  Claim C4. Let \<open>1 \<le> k \<le> 5\<close>. When iterations \<open>1, ..., k - 1\<close> fail retriably (a rate limit,
  or a network error after which the rebuild of the connection returns, so that the next
  iteration is reached) and iteration \<open>k\<close> confirms, \<open>executeTransaction\<close> returns \<open>true\<close> and
  has run exactly \<open>k\<close> iterations.
\<close>

theorem success_ends_the_call:
  assumes "1 \<le> k" and "k \<le> 5"
    and "\<forall>j\<in>{1..<k}. failsWith RateLimited (W j) fn \<or>
           (failsWith NetworkFailure (W j) fn \<and> reconnect (W j) = None)"
    and "confirms (W k) fn"
  shows "ret (executeTransaction W fn s) = Inr True \<and>
         attempts (executeTransaction W fn s) = k"
  using success_from [of 1 "k - 1" k W fn s] assms
  by (simp add: executeTransaction_def MAX_RETRIES_def)

text \<open>A rate limit, then a timeout, then success on the third iteration.\<close>

theorem success_ends_the_call_witness:
  "ret (executeTransaction lateSuccess (Mint 1) startState) = Inr True \<and>
   attempts (executeTransaction lateSuccess (Mint 1) startState) = 3"
proof -
  have "\<forall>j\<in>{1..<3}. failsWith RateLimited (lateSuccess j) (Mint 1) \<or>
      (failsWith NetworkFailure (lateSuccess j) (Mint 1) \<and> reconnect (lateSuccess j) = None)"
    by (simp add: lateSuccess_def failsWith_rejecting classify_rateLimitError
        classify_networkError reconnect_rejecting)
  moreover have "confirms (lateSuccess 3) (Mint 1)"
    by (simp add: lateSuccess_def confirms_confirming)
  ultimately show ?thesis
    using success_ends_the_call [of 3 lateSuccess "Mint 1" startState] by simp
qed

text \<open>
  Claim C8 as stated fails: the first submission times out and \<open>loadJson\<close> throws while
  \<open>initializeConnections\<close> runs inside the catch block; the error leaves
  \<open>executeTransaction\<close> instead of a boolean.
\<close>

theorem rebuild_failure_escapes:
  "failsWith NetworkFailure (abiFileLost 1) (Wrap 5) \<and>
   ret (executeTransaction abiFileLost (Wrap 5) startState) = Inl fileError"
proof -
  have net: "failsWith NetworkFailure (abiFileLost 1) (Wrap 5)"
    by (simp add: failsWith_def abiFileLost_def tryBlock_def rejecting_def confirming_def
        classify_networkError)
  have "reconnect (abiFileLost 1) = Some (LoadMintAbi, fileError)"
    by (simp add: abiFileLost_def)
  with net have "ret (attemptLoop abiFileLost (Wrap 5) 1 startState) = Inl fileError"
    by (subst loop_network_throw [where W = abiFileLost and attempt = 1])
       (simp_all add: MAX_RETRIES_def)
  with net show ?thesis
    by (simp add: executeTransaction_def)
qed

text \<open>
  Claim C8, amended. Every error thrown inside the \<open>try\<close> (fee query, gas price, submission,
  confirmation) is absorbed: \<open>executeTransaction\<close> returns a boolean, unless
  \<open>initializeConnections\<close> throws while the catch block handles a network error, and then
  exactly that error escapes. In particular a boolean is returned whenever every such rebuild
  returns.
\<close>

theorem try_block_errors_absorbed:
  "((\<exists>b. ret (executeTransaction W fn s) = Inr b) \<or>
    (\<exists>k step e. 1 \<le> k \<and> k \<le> 5 \<and> failsWith NetworkFailure (W k) fn \<and>
       reconnect (W k) = Some (step, e) \<and> ret (executeTransaction W fn s) = Inl e)) \<and>
   ((\<forall>k\<in>{1..5}. failsWith NetworkFailure (W k) fn \<longrightarrow> reconnect (W k) = None) \<longrightarrow>
    (\<exists>b. ret (executeTransaction W fn s) = Inr b))"
proof -
  have first: "(\<exists>b. ret (executeTransaction W fn s) = Inr b) \<or>
    (\<exists>k step e. 1 \<le> k \<and> k \<le> 5 \<and> failsWith NetworkFailure (W k) fn \<and>
       reconnect (W k) = Some (step, e) \<and> ret (executeTransaction W fn s) = Inl e)"
    using escape_from [of W fn 1 s] by (simp add: executeTransaction_def MAX_RETRIES_def)
  then show ?thesis by fastforce
qed

text \<open>Five timeouts in a row, every rebuild returning.\<close>

theorem try_block_errors_absorbed_witness:
  "\<exists>b. ret (executeTransaction allOutages (Wrap 5) startState) = Inr b"
proof -
  have "\<forall>k\<in>{1..5}. failsWith NetworkFailure (allOutages k) (Wrap 5) \<longrightarrow>
      reconnect (allOutages k) = None"
    by (simp add: allOutages_def reconnect_rejecting)
  then show ?thesis
    using try_block_errors_absorbed [of allOutages "Wrap 5" startState] by blast
qed


section \<open>The claim about error classification\<close>

lemma includes_str_Nil [simp]: "includes_str [] (c # cs) = False"
  by simp

text \<open>
  Claim C10. The catch block sends every error to exactly one of its three branches. The
  rate-limit branch is taken exactly when the code is the number -32029 or the lower-cased
  message contains \<open>rate limit exceeded\<close>, whether or not the network criteria hold as well;
  the network branch exactly when the rate-limit criteria fail and the code is
  \<open>SERVER_ERROR\<close>, \<open>NETWORK_ERROR\<close> or \<open>TIMEOUT\<close> or the message contains
  \<open>failed to detect network\<close>; the fatal branch exactly when both sets of criteria fail.
\<close>

theorem classification_total_and_prioritized:
  "(classify e = RateLimited \<or> classify e = NetworkFailure \<or> classify e = FatalError) \<and>
   (classify e = RateLimited \<longleftrightarrow>
      (code e = JNum (- 32029) \<or>
       (\<exists>m. message e = Some m \<and> includes_str (toLowerCase m) ''rate limit exceeded''))) \<and>
   (classify e = NetworkFailure \<longleftrightarrow>
      \<not> (code e = JNum (- 32029) \<or>
         (\<exists>m. message e = Some m \<and> includes_str (toLowerCase m) ''rate limit exceeded'')) \<and>
      (code e \<in> {JStr ''SERVER_ERROR'', JStr ''NETWORK_ERROR'', JStr ''TIMEOUT''} \<or>
       (\<exists>m. message e = Some m \<and> includes_str m ''failed to detect network''))) \<and>
   (classify e = FatalError \<longleftrightarrow>
      \<not> (code e = JNum (- 32029) \<or>
         (\<exists>m. message e = Some m \<and> includes_str (toLowerCase m) ''rate limit exceeded'')) \<and>
      \<not> (code e \<in> {JStr ''SERVER_ERROR'', JStr ''NETWORK_ERROR'', JStr ''TIMEOUT''} \<or>
         (\<exists>m. message e = Some m \<and> includes_str m ''failed to detect network'')))"
  unfolding classify_def isRateLimitError_def isNetworkError_def toLowerCase_def
  by (cases "message e") auto

text \<open>An error with a network code and a rate-limit message is handled as a rate limit.\<close>

theorem classification_total_and_prioritized_witness:
  "code overloadedError \<in> {JStr ''SERVER_ERROR'', JStr ''NETWORK_ERROR'', JStr ''TIMEOUT''} \<and>
   classify overloadedError = RateLimited \<and> classify overloadedError \<noteq> NetworkFailure"
proof -
  have "includes_str (toLowerCase ''Rate Limit Exceeded'') ''rate limit exceeded''"
    by code_simp
  then have "\<exists>m. message overloadedError = Some m \<and>
      includes_str (toLowerCase m) ''rate limit exceeded''"
    by (simp add: overloadedError_def)
  then have "classify overloadedError = RateLimited"
    using classification_total_and_prioritized [of overloadedError] by blast
  then show ?thesis
    by (simp add: overloadedError_def)
qed

section \<open>The claims about the precondition checks\<close>

text \<open>
  Claim C5. \<open>checkAndMintIfNeeded\<close> returns \<open>true\<close> after the balance read alone when the
  balance is positive, and \<open>false\<close> after the read alone when the read fails. When the balance
  is zero it makes one call of \<open>executeTransaction\<close> with the mint of the fixed amount
  \<open>100 * 10 ^ 18\<close>: its calls are the read followed by the calls of that one executor call,
  every submission among them is that mint, the globals are those the executor leaves, and
  the result is \<open>true\<close> exactly when the executor returns \<open>true\<close>.
\<close>

theorem mint_only_when_balance_is_zero:
  "MINT_AMOUNT = 100000000000000000000 \<and>
   (0 < balance \<longrightarrow>
      checkAndMintIfNeeded (Inr balance) W s = \<lparr>ok = True, after = s, calls = [BalanceOf]\<rparr>) \<and>
   checkAndMintIfNeeded (Inl error) W s = \<lparr>ok = False, after = s, calls = [BalanceOf]\<rparr> \<and>
   ok (checkAndMintIfNeeded (Inr 0) W s) =
     (ret (executeTransaction W (Mint MINT_AMOUNT) s) = Inr True) \<and>
   after (checkAndMintIfNeeded (Inr 0) W s) = post (executeTransaction W (Mint MINT_AMOUNT) s) \<and>
   calls (checkAndMintIfNeeded (Inr 0) W s) =
     BalanceOf # events (executeTransaction W (Mint MINT_AMOUNT) s) \<and>
   (\<forall>x g. Send x g \<in> set (calls (checkAndMintIfNeeded (Inr 0) W s)) \<longrightarrow> x = Mint MINT_AMOUNT)"
proof -
  have amount: "MINT_AMOUNT = 100000000000000000000"
    by (simp add: MINT_AMOUNT_def)
  have zero: "ok (checkAndMintIfNeeded (Inr 0) W s) =
        (ret (executeTransaction W (Mint MINT_AMOUNT) s) = Inr True) \<and>
      after (checkAndMintIfNeeded (Inr 0) W s) = post (executeTransaction W (Mint MINT_AMOUNT) s) \<and>
      calls (checkAndMintIfNeeded (Inr 0) W s) =
        BalanceOf # events (executeTransaction W (Mint MINT_AMOUNT) s)"
    by (cases "ret (executeTransaction W (Mint MINT_AMOUNT) s)")
       (simp_all add: checkAndMintIfNeeded_def Let_def)
  have sends: "x = Mint MINT_AMOUNT"
    if "Send x g \<in> set (calls (checkAndMintIfNeeded (Inr 0) W s))" for x g
    using that zero sends_from [of x g W "Mint MINT_AMOUNT" 1 s]
    by (simp add: executeTransaction_def)
  have positive: "checkAndMintIfNeeded (Inr balance) W s =
      \<lparr>ok = True, after = s, calls = [BalanceOf]\<rparr>" if "0 < balance"
    using that by (simp add: checkAndMintIfNeeded_def)
  have failed: "checkAndMintIfNeeded (Inl error) W s =
      \<lparr>ok = False, after = s, calls = [BalanceOf]\<rparr>"
    by (simp add: checkAndMintIfNeeded_def)
  show ?thesis
    using amount positive failed zero sends by blast
qed

text \<open>A positive balance: nothing but the read happens.\<close>

theorem mint_only_when_balance_is_zero_witness:
  "checkAndMintIfNeeded (Inr 250) abiFileLost startState =
     \<lparr>ok = True, after = startState, calls = [BalanceOf]\<rparr>"
  using mint_only_when_balance_is_zero [where balance = 250 and W = abiFileLost and s = startState]
  by simp

text \<open>
  Claim C6. The threshold is \<open>1000000 * 10 ^ 18\<close>. \<open>checkAndApproveIfNeeded\<close> returns
  \<open>true\<close> after the allowance read alone when the allowance is at least the threshold, and
  \<open>false\<close> after the read alone when the read fails. Below the threshold it makes one call
  of \<open>executeTransaction\<close> with the approval of \<open>MaxUint256 = 2 ^ 256 - 1\<close>, the largest
  256-bit value: its calls are the read followed by the calls of that one executor call,
  every submission among them is that approval, and the result is \<open>true\<close> exactly when the
  executor returns \<open>true\<close>.
\<close>

theorem approve_only_when_allowance_is_low:
  "SUFFICIENT_ALLOWANCE = 1000000000000000000000000 \<and>
   MaxUint256 = 2 ^ 256 - 1 \<and>
   (allowance < 2 ^ 256 \<longrightarrow> allowance \<le> MaxUint256) \<and>
   (SUFFICIENT_ALLOWANCE \<le> allowance \<longrightarrow>
      checkAndApproveIfNeeded (Inr allowance) W s =
        \<lparr>ok = True, after = s, calls = [Allowance]\<rparr>) \<and>
   checkAndApproveIfNeeded (Inl error) W s = \<lparr>ok = False, after = s, calls = [Allowance]\<rparr> \<and>
   (allowance < SUFFICIENT_ALLOWANCE \<longrightarrow>
      ok (checkAndApproveIfNeeded (Inr allowance) W s) =
        (ret (executeTransaction W (Approve MaxUint256) s) = Inr True) \<and>
      after (checkAndApproveIfNeeded (Inr allowance) W s) =
        post (executeTransaction W (Approve MaxUint256) s) \<and>
      calls (checkAndApproveIfNeeded (Inr allowance) W s) =
        Allowance # events (executeTransaction W (Approve MaxUint256) s) \<and>
      (\<forall>x g. Send x g \<in> set (calls (checkAndApproveIfNeeded (Inr allowance) W s)) \<longrightarrow>
         x = Approve MaxUint256))"
proof -
  have threshold: "SUFFICIENT_ALLOWANCE = 1000000000000000000000000"
    by (simp add: SUFFICIENT_ALLOWANCE_def)
  have largest: "allowance \<le> MaxUint256" if "allowance < 2 ^ 256"
    using that by (simp add: MaxUint256_def)
  have enough: "checkAndApproveIfNeeded (Inr allowance) W s =
      \<lparr>ok = True, after = s, calls = [Allowance]\<rparr>" if "SUFFICIENT_ALLOWANCE \<le> allowance"
    using that by (simp add: checkAndApproveIfNeeded_def)
  have failed: "checkAndApproveIfNeeded (Inl error) W s =
      \<lparr>ok = False, after = s, calls = [Allowance]\<rparr>"
    by (simp add: checkAndApproveIfNeeded_def)
  have low: "ok (checkAndApproveIfNeeded (Inr allowance) W s) =
        (ret (executeTransaction W (Approve MaxUint256) s) = Inr True) \<and>
      after (checkAndApproveIfNeeded (Inr allowance) W s) =
        post (executeTransaction W (Approve MaxUint256) s) \<and>
      calls (checkAndApproveIfNeeded (Inr allowance) W s) =
        Allowance # events (executeTransaction W (Approve MaxUint256) s)"
    if "allowance < SUFFICIENT_ALLOWANCE"
    using that
    by (cases "ret (executeTransaction W (Approve MaxUint256) s)")
       (simp_all add: checkAndApproveIfNeeded_def Let_def)
  have sends: "x = Approve MaxUint256"
    if "allowance < SUFFICIENT_ALLOWANCE"
      and "Send x g \<in> set (calls (checkAndApproveIfNeeded (Inr allowance) W s))" for x g
    using that low sends_from [of x g W "Approve MaxUint256" 1 s]
    by (simp add: executeTransaction_def)
  have top: "MaxUint256 = 2 ^ 256 - 1"
    by (simp only: MaxUint256_def)
  show ?thesis
    using threshold top largest enough failed low sends by blast
qed

text \<open>An allowance equal to the threshold, and one just below it.\<close>

theorem approve_only_when_allowance_is_low_witness:
  "checkAndApproveIfNeeded (Inr 1000000000000000000000000) abiFileLost startState =
     \<lparr>ok = True, after = startState, calls = [Allowance]\<rparr> \<and>
   calls (checkAndApproveIfNeeded (Inr 999999999999999999999999) abiFileLost startState) =
     Allowance # events (executeTransaction abiFileLost (Approve MaxUint256) startState)"
proof -
  have "SUFFICIENT_ALLOWANCE \<le> 1000000000000000000000000"
    and "999999999999999999999999 < SUFFICIENT_ALLOWANCE"
    by (simp_all add: SUFFICIENT_ALLOWANCE_def)
  then show ?thesis
    using approve_only_when_allowance_is_low
        [where allowance = 1000000000000000000000000 and W = abiFileLost and s = startState]
      approve_only_when_allowance_is_low
        [where allowance = 999999999999999999999999 and W = abiFileLost and s = startState]
    by blast
qed

section \<open>The claim about the daily sleep\<close>

text \<open>
  Claim C9. A day is 86400000 milliseconds. After a daily cycle, \<open>main\<close> sleeps for
  \<open>max(0, 86400000 - (endTime - startTime))\<close> milliseconds: never a negative time, the rest
  of the 24 hours counted from the start of a cycle that took at most a day, and zero after a
  cycle that took a day or longer.
\<close>

theorem sleep_is_remainder_of_day:
  "oneDayInMs = 86400000 \<and>
   sleepTime startTime endTime = max 0 (86400000 - (endTime - startTime)) \<and>
   mainIteration startTime endTime cycle =
     cycle @ [Sleep (nat (max 0 (86400000 - (endTime - startTime))))] \<and>
   0 \<le> sleepTime startTime endTime \<and>
   (endTime - startTime \<le> 86400000 \<longrightarrow>
      endTime + sleepTime startTime endTime = startTime + 86400000) \<and>
   (86400000 \<le> endTime - startTime \<longrightarrow> sleepTime startTime endTime = 0)"
  by (simp add: sleepTime_def mainIteration_def oneDayInMs_def Let_def)

text \<open>A cycle of one hour, and a cycle of twenty-five hours.\<close>

theorem sleep_is_remainder_of_day_witness:
  "sleepTime 1700000000000 1700003600000 = 82800000 \<and>
   sleepTime 1700000000000 1700090000000 = 0"
  using sleep_is_remainder_of_day [where startTime = 1700000000000 and endTime = 1700003600000 and cycle = "[]"]
    sleep_is_remainder_of_day [where startTime = 1700000000000 and endTime = 1700090000000 and cycle = "[]"]
  by simp


section \<open>Decimal digits\<close>

lemma digitVal_digitChar: "d < 10 \<Longrightarrow> digitVal (digitChar d) = Some d"
  by (simp add: digitVal_def digitChar_def)

lemma digitChar_not_minus: "d < 10 \<Longrightarrow> digitChar d \<noteq> CHR ''-''"
proof
  assume "d < 10" and "digitChar d = CHR ''-''"
  then have "digitVal (CHR ''-'') = Some d"
    using digitVal_digitChar by metis
  then show False
    by (simp add: digitVal_def)
qed

lemma charAt_characters_table: "\<forall>d \<in> set [0..<10]. charAt characters d = [digitChar d]"
  by code_simp

lemma charAt_characters: "d < 10 \<Longrightarrow> charAt characters d = [digitChar d]"
  using charAt_characters_table by simp

lemma parseDigits_digits:
  "\<forall>d \<in> set ds. d < 10 \<Longrightarrow>
   parseDigits (map digitChar ds) acc = Some (foldl (\<lambda>a d. 10 * a + d) acc ds)"
  by (induction ds arbitrary: acc) (simp_all add: digitVal_digitChar)

lemma BigInt_digits:
  assumes "\<forall>d \<in> set ds. d < 10"
  shows "BigInt (map digitChar ds) = Some (int (foldl (\<lambda>a d. 10 * a + d) 0 ds))"
proof (cases ds)
  case Nil
  then show ?thesis by (simp add: BigInt_def)
next
  case (Cons d ds')
  then have "digitChar d \<noteq> CHR ''-''"
    using assms digitChar_not_minus by simp
  moreover have "parseDigits (map digitChar ds) 0 = Some (foldl (\<lambda>a d. 10 * a + d) 0 ds)"
    using assms by (rule parseDigits_digits)
  ultimately show ?thesis
    using Cons by (simp add: BigInt_def)
qed

lemma foldl_digits_bounds:
  fixes ds :: "nat list" and acc :: nat
  assumes "\<forall>d \<in> set ds. d < 10"
  shows "acc * 10 ^ length ds \<le> foldl (\<lambda>a d. 10 * a + d) acc ds \<and>
         foldl (\<lambda>a d. 10 * a + d) acc ds < (acc + 1) * 10 ^ length ds"
  using assms
proof (induction ds arbitrary: acc)
  case Nil
  show ?case by simp
next
  case (Cons d ds)
  let ?n = "10 ^ length ds :: nat"
  have d: "d < 10" and rest: "\<forall>d \<in> set ds. d < 10"
    using Cons.prems by simp_all
  have IH: "(10 * acc + d) * ?n \<le> foldl (\<lambda>a d. 10 * a + d) (10 * acc + d) ds \<and>
      foldl (\<lambda>a d. 10 * a + d) (10 * acc + d) ds < (10 * acc + d + 1) * ?n"
    using Cons.IH [OF rest] .
  have lower: "acc * (10 * ?n) \<le> (10 * acc + d) * ?n"
    by (simp add: algebra_simps)
  have "(10 * acc + d + 1) * ?n \<le> (10 * acc + 10) * ?n"
    using d by (intro mult_le_mono1) simp
  then have upper: "(10 * acc + d + 1) * ?n \<le> (acc + 1) * (10 * ?n)"
    by (simp add: algebra_simps)
  have unfold: "foldl (\<lambda>a d. 10 * a + d) acc (d # ds) =
      foldl (\<lambda>a d. 10 * a + d) (10 * acc + d) ds"
    and len: "(10::nat) ^ length (d # ds) = 10 * ?n"
    by simp_all
  have "acc * (10 * ?n) \<le> foldl (\<lambda>a d. 10 * a + d) (10 * acc + d) ds"
    using lower IH by (blast intro: le_trans)
  moreover have "foldl (\<lambda>a d. 10 * a + d) (10 * acc + d) ds < (acc + 1) * (10 * ?n)"
    using upper IH by (blast intro: less_le_trans)
  ultimately show ?case
    unfolding unfold len by blast
qed

lemma foldl_lowDigits:
  "foldl (\<lambda>a d. 10 * a + d) acc (lowDigits k n) = acc * 10 ^ k + n mod 10 ^ k"
proof (induction k arbitrary: n)
  case 0
  show ?case by simp
next
  case (Suc k)
  have "foldl (\<lambda>a d. 10 * a + d) acc (lowDigits (Suc k) n) =
      10 * (acc * 10 ^ k + n div 10 mod 10 ^ k) + n mod 10"
    by (simp add: Suc.IH)
  also have "\<dots> = acc * 10 ^ Suc k + (10 * (n div 10 mod 10 ^ k) + n mod 10)"
    by (simp add: algebra_simps)
  also have "10 * (n div 10 mod 10 ^ k) + n mod 10 = n mod 10 ^ Suc k"
    by (simp add: mod_mult2_eq)
  finally show ?case .
qed

lemma lowDigits_digits: "\<forall>d \<in> set (lowDigits k n). d < 10"
  by (induction k arbitrary: n) simp_all

lemma length_lowDigits [simp]: "length (lowDigits k n) = k"
  by (induction k arbitrary: n) simp_all

lemma lowDigits_cong: "n mod 10 ^ k = m mod 10 ^ k \<Longrightarrow> lowDigits k n = lowDigits k m"
proof (induction k arbitrary: n m)
  case 0
  show ?case by simp
next
  case (Suc k)
  have n: "n mod (10 * 10 ^ k) = 10 * (n div 10 mod 10 ^ k) + n mod 10"
    and m: "m mod (10 * 10 ^ k) = 10 * (m div 10 mod 10 ^ k) + m mod 10"
    by (simp_all add: mod_mult2_eq)
  have eq: "10 * (n div 10 mod 10 ^ k) + n mod 10 = 10 * (m div 10 mod 10 ^ k) + m mod 10"
    using Suc.prems n m by simp
  have last: "n mod 10 = m mod 10"
    using arg_cong [OF eq, of "\<lambda>x. x mod 10"] by simp
  have "n div 10 mod 10 ^ k = m div 10 mod 10 ^ k"
    using arg_cong [OF eq, of "\<lambda>x. x div 10"] by simp
  then have "lowDigits k (n div 10) = lowDigits k (m div 10)"
    by (rule Suc.IH)
  with last show ?case by simp
qed

section \<open>Decimal notation\<close>

lemma toDigits_small: "n < 10 \<Longrightarrow> toDigits n = [digitChar n]"
  by (simp add: toDigits.simps)

lemma toDigits_large: "10 \<le> n \<Longrightarrow> toDigits n = toDigits (n div 10) @ [digitChar (n mod 10)]"
  by (subst toDigits.simps) simp

lemma length_toDigits_pos: "0 < length (toDigits n)"
  by (cases "n < 10") (simp_all add: toDigits_small toDigits_large)

lemma length_toDigits_lower: "10 ^ k \<le> n \<Longrightarrow> k < length (toDigits n)"
proof (induction k arbitrary: n)
  case 0
  show ?case by (rule length_toDigits_pos)
next
  case (Suc k)
  have "(10::nat) * 1 \<le> 10 * 10 ^ k"
    by (intro mult_le_mono2) simp
  then have big: "10 \<le> n"
    using Suc.prems unfolding power_Suc by linarith
  have "10 ^ k \<le> n div 10" using Suc.prems by simp
  then have "k < length (toDigits (n div 10))" by (rule Suc.IH)
  then show ?case by (simp add: toDigits_large [OF big])
qed

lemma length_toDigits_upper: "n < 10 ^ Suc k \<Longrightarrow> length (toDigits n) \<le> Suc k"
proof (induction k arbitrary: n)
  case 0
  then show ?case by (simp add: toDigits_small)
next
  case (Suc k)
  show ?case
  proof (cases "n < 10")
    case True
    then show ?thesis by (simp add: toDigits_small)
  next
    case False
    then have big: "10 \<le> n" by simp
    have "n div 10 < 10 ^ Suc k" using Suc.prems by (simp add: less_mult_imp_div_less)
    then have "length (toDigits (n div 10)) \<le> Suc k" by (rule Suc.IH)
    then show ?thesis by (simp add: toDigits_large [OF big])
  qed
qed

lemma sliceLast_toDigits:
  "k \<le> length (toDigits n) \<Longrightarrow> sliceLast k (toDigits n) = map digitChar (lowDigits k n)"
proof (induction k arbitrary: n)
  case 0
  show ?case by (simp add: sliceLast_def)
next
  case (Suc k)
  show ?case
  proof (cases "n < 10")
    case True
    then have "k = 0" using Suc.prems by (simp add: toDigits_small)
    then show ?thesis using True by (simp add: toDigits_small sliceLast_def)
  next
    case False
    then have big: "10 \<le> n" by simp
    have le: "k \<le> length (toDigits (n div 10))"
      using Suc.prems by (simp add: toDigits_large [OF big])
    have "sliceLast k (toDigits (n div 10)) = map digitChar (lowDigits k (n div 10))"
      using le by (rule Suc.IH)
    then show ?thesis
      using le by (simp add: toDigits_large [OF big] sliceLast_def Suc_diff_le)
  qed
qed

section \<open>The digit loop\<close>

lemma randomDigits_eq:
  "randomDigits rnd len i result =
     result @ concat (map (\<lambda>j. charAt characters (rnd j)) [i..<len])"
proof (induction rnd len i result rule: randomDigits.induct)
  case (1 rnd len i result)
  show ?case
  proof (cases "i < len")
    case True
    then have "[i..<len] = i # [i + 1..<len]" by (simp add: upt_rec)
    then show ?thesis
      using True "1.IH" by (subst randomDigits.simps) simp
  next
    case False
    then show ?thesis by (subst randomDigits.simps) simp
  qed
qed

lemma randomDigits_digits:
  assumes "\<forall>j<len. rnd j < 10"
  shows "randomDigits rnd len 0 [] = map digitChar (map rnd [0..<len])"
proof -
  have "concat (map (\<lambda>j. charAt characters (rnd j)) [0..<len]) =
      concat (map (\<lambda>j. [digitChar (rnd j)]) [0..<len])"
    using assms by (intro arg_cong [where f = concat] map_cong) (simp_all add: charAt_characters)
  also have "\<dots> = map digitChar (map rnd [0..<len])"
    by (induction len) simp_all
  finally show ?thesis
    by (simp add: randomDigits_eq)
qed


section \<open>The claim about token identifiers\<close>

lemma token_value:
  assumes draws: "\<forall>i<len. rnd i < 10" and ts: "10000 \<le> now"
  shows "getRandomTokenID len rnd now =
     Some (int (foldl (\<lambda>a d. 10 * a + d) 0 (map rnd [0..<len]) * 10 ^ 5 + nat now mod 10 ^ 5))"
proof -
  let ?n = "nat now"
  let ?rs = "map rnd [0..<len]"
  have "(10::nat) ^ 4 \<le> ?n" using ts by simp
  then have "4 < length (toDigits ?n)" by (rule length_toDigits_lower)
  then have "sliceLast 5 (toDigits ?n) = map digitChar (lowDigits 5 ?n)"
    by (intro sliceLast_toDigits) simp
  moreover have "toString now = toDigits ?n"
    using ts by (simp add: toString_def)
  moreover have "randomDigits rnd len 0 [] = map digitChar ?rs"
    using draws by (rule randomDigits_digits)
  ultimately have str: "randomDigits rnd len 0 [] @ sliceLast 5 (toString now) =
      map digitChar (?rs @ lowDigits 5 ?n)"
    by simp
  have "\<forall>d \<in> set (?rs @ lowDigits 5 ?n). d < 10"
    using draws lowDigits_digits by auto
  then have "BigInt (map digitChar (?rs @ lowDigits 5 ?n)) =
      Some (int (foldl (\<lambda>a d. 10 * a + d) 0 (?rs @ lowDigits 5 ?n)))"
    by (rule BigInt_digits)
  then show ?thesis
    unfolding getRandomTokenID_def str by (simp add: foldl_lowDigits)
qed

lemma leading_digit_bounds:
  fixes rnd :: "nat \<Rightarrow> nat"
  assumes "\<forall>i<Suc len. rnd i < 10"
  shows "rnd 0 * 10 ^ len \<le> foldl (\<lambda>a d. 10 * a + d) 0 (map rnd [0..<Suc len]) \<and>
         foldl (\<lambda>a d. 10 * a + d) 0 (map rnd [0..<Suc len]) < (rnd 0 + 1) * 10 ^ len"
proof -
  have split: "map rnd [0..<Suc len] = rnd 0 # map rnd [Suc 0..<Suc len]"
    by (simp add: upt_conv_Cons del: upt_Suc)
  have "\<forall>d \<in> set (map rnd [Suc 0..<Suc len]). d < 10"
    using assms by auto
  then show ?thesis
    unfolding split using foldl_digits_bounds [of "map rnd [Suc 0..<Suc len]" "rnd 0"]
    by (simp del: upt_Suc)
qed

text \<open>
  Claim C7, amended. For the default length 18, draws that are digits and a timestamp of at
  least five digits, \<open>getRandomTokenID\<close> returns a non-negative integer below \<open>10 ^ 23\<close>
  that agrees with the timestamp modulo \<open>10 ^ 5\<close>. Its decimal notation has at most 23
  digits, and exactly 23 if and only if the first digit drawn is not 0; in that case its last
  five digits are the last five digits of the timestamp.
\<close>

theorem token_id_digits:
  assumes "\<forall>i<18. rnd i < 10" and "10000 \<le> now"
  shows "\<exists>v. getRandomTokenID 18 rnd now = Some v \<and> 0 \<le> v \<and> v < 10 ^ 23 \<and>
           v mod 100000 = now mod 100000 \<and>
           length (toString v) \<le> 23 \<and>
           (length (toString v) = 23 \<longleftrightarrow> rnd 0 \<noteq> 0) \<and>
           (rnd 0 \<noteq> 0 \<longrightarrow> sliceLast 5 (toString v) = sliceLast 5 (toString now))"
proof -
  define R where "R = foldl (\<lambda>a d. 10 * a + d) 0 (map rnd [0..<18])"
  define m where "m = nat now mod 10 ^ 5"
  define v where "v = R * 10 ^ 5 + m"
  have val: "getRandomTokenID 18 rnd now = Some (int v)"
    unfolding v_def R_def m_def using assms by (rule token_value)
  have lead: "rnd 0 * 10 ^ 17 \<le> R \<and> R < (rnd 0 + 1) * 10 ^ 17"
    unfolding R_def using leading_digit_bounds [of 17 rnd] assms(1) by simp
  have first: "rnd 0 < 10" using assms(1) by simp
  have m: "m < 10 ^ 5" unfolding m_def by simp
  have upper: "v < 10 ^ 23"
  proof -
    have "(rnd 0 + 1) * 10 ^ 17 \<le> 10 * (10 ^ 17 :: nat)"
      using first by (intro mult_le_mono1) simp
    then have "R < 10 * 10 ^ 17"
      using lead by linarith
    then have "R + 1 \<le> 10 ^ 18" by simp
    then have "(R + 1) * 10 ^ 5 \<le> 10 ^ 18 * (10 ^ 5 :: nat)" by (rule mult_le_mono1)
    then show ?thesis unfolding v_def using m by simp
  qed
  have modv: "v mod 10 ^ 5 = nat now mod 10 ^ 5"
    unfolding v_def m_def by simp
  have "int v mod 100000 = int (v mod 10 ^ 5)"
    by (simp add: zmod_int)
  also have "\<dots> = int (nat now mod 10 ^ 5)" using modv by simp
  also have "\<dots> = now mod 100000" using assms(2) by (simp add: zmod_int)
  finally have cong: "int v mod 100000 = now mod 100000" .
  have str: "toString (int v) = toDigits v"
    by (simp add: toString_def)
  have len_le: "length (toDigits v) \<le> 23"
    using upper length_toDigits_upper [of v 22] by simp
  have nonzero: "length (toDigits v) = 23" if "rnd 0 \<noteq> 0"
  proof -
    have "1 * 10 ^ 17 \<le> rnd 0 * (10 ^ 17 :: nat)"
      using that by (intro mult_le_mono1) simp
    then have "10 ^ 17 \<le> R" using lead by simp
    then have "10 ^ 17 * (10 ^ 5 :: nat) \<le> R * 10 ^ 5" by (rule mult_le_mono1)
    then have "10 ^ 22 \<le> v" unfolding v_def by simp
    then have "22 < length (toDigits v)" by (rule length_toDigits_lower)
    then show ?thesis using len_le by simp
  qed
  have zero: "length (toDigits v) \<le> 22" if "rnd 0 = 0"
  proof -
    have "R + 1 \<le> 10 ^ 17" using lead that by simp
    then have "(R + 1) * 10 ^ 5 \<le> 10 ^ 17 * (10 ^ 5 :: nat)" by (rule mult_le_mono1)
    then have "v < 10 ^ 22" unfolding v_def using m by simp
    then show ?thesis using length_toDigits_upper [of v 21] by simp
  qed
  have tail: "sliceLast 5 (toString (int v)) = sliceLast 5 (toString now)" if "rnd 0 \<noteq> 0"
  proof -
    have "sliceLast 5 (toDigits v) = map digitChar (lowDigits 5 v)"
      using nonzero [OF that] by (intro sliceLast_toDigits) simp
    also have "lowDigits 5 v = lowDigits 5 (nat now)"
      using modv by (rule lowDigits_cong)
    also have "map digitChar (lowDigits 5 (nat now)) = sliceLast 5 (toDigits (nat now))"
    proof -
      have "(10::nat) ^ 4 \<le> nat now" using assms(2) by simp
      then have "4 < length (toDigits (nat now))" by (rule length_toDigits_lower)
      then show ?thesis by (intro sliceLast_toDigits [symmetric]) simp
    qed
    also have "toDigits (nat now) = toString now"
      using assms(2) by (simp add: toString_def)
    finally show ?thesis by (simp add: str)
  qed
  have "length (toString (int v)) = 23 \<longleftrightarrow> rnd 0 \<noteq> 0"
  proof (cases "rnd 0 = 0")
    case True
    then show ?thesis using zero by (simp add: str)
  next
    case False
    then show ?thesis using nonzero by (simp add: str)
  qed
  then show ?thesis
    using val upper cong len_le tail by (intro exI [of _ "int v"]) (simp add: str)
qed

text \<open>Eighteen sevens drawn at timestamp 1700000012345.\<close>

theorem token_id_digits_witness:
  "\<exists>v. getRandomTokenID 18 allSevens 1700000012345 = Some v \<and>
     length (toString v) = 23 \<and>
     sliceLast 5 (toString v) = sliceLast 5 (toString 1700000012345)"
  using token_id_digits [of allSevens 1700000012345]
  by (auto simp: allSevens_def)

text \<open>
  Claim C7 as stated fails: when the first digit drawn is 0, \<open>BigInt\<close> drops it and the
  decimal notation of the result has 22 digits.
\<close>

theorem leading_zero_shortens_token_id:
  "getRandomTokenID 18 leadingZero 1700000012345 = Some 7777777777777777712345 \<and>
   length (toString 7777777777777777712345) = 22"
  by (simp add: getRandomTokenID_def randomDigits.simps leadingZero_def charAt_def
      characters_def toString_def toDigits.simps sliceLast_def BigInt_def digitVal_def
      digitChar_def)

end
